theory Spec2Isabelle
  imports Main "HOL-Library.Sublist"
begin

section \<open>Data model of \<^verbatim>\<open>bowling_game.py\<close>\<close>

text \<open>
  The two exceptions the module can raise: \<^verbatim>\<open>ValueError\<close>, with its message, raised by
  \<^verbatim>\<open>roll\<close>, and the \<^verbatim>\<open>IndexError\<close> of a list read at or past the end.
\<close>

datatype error = ValueError string | IndexError

text \<open>
  The specification names the two \<^verbatim>\<open>ValueError\<close>s of \<^verbatim>\<open>roll\<close> by kind; the code tells
  them apart by message only.
\<close>

definition InvalidRollValue :: error where
  "InvalidRollValue = ValueError ''Pins must be between 0 and 10''"

definition GameAlreadyComplete :: error where
  "GameAlreadyComplete = ValueError ''Game already finished''"

text \<open>The class \<^verbatim>\<open>BowlingGame\<close>: its only attribute is the list of rolls.\<close>

record BowlingGame =
  rolls :: "int list"

text \<open>\<^verbatim>\<open>__init__\<close>: a new game has no rolls.\<close>

definition BowlingGame_init :: BowlingGame where
  "BowlingGame_init = \<lparr>rolls = []\<rparr>"

text \<open>
  A method takes the object and returns its result together with the object as the
  call leaves it. A raised exception is \<open>Inl\<close>; the object outlives the exception.
  Roll indices start at 0 and only grow, so they are natural numbers.
\<close>

text \<open>\<^verbatim>\<open>xs[i]\<close> for \<open>i \<ge> 0\<close>: raises \<^verbatim>\<open>IndexError\<close> out of range.\<close>

definition getitem :: "int list \<Rightarrow> nat \<Rightarrow> error + int" where
  "getitem xs i = (if i < length xs then Inr (xs ! i) else Inl IndexError)"

text \<open>\<^verbatim>\<open>xs[lo:hi]\<close> for \<open>0 \<le> lo \<le> hi\<close>: a slice is cut to the list, it never raises.\<close>

definition slice :: "int list \<Rightarrow> nat \<Rightarrow> nat \<Rightarrow> int list" where
  "slice xs lo hi = take (hi - lo) (drop lo xs)"

section \<open>Helper methods\<close>

text \<open>
  \<^verbatim>\<open>_is_strike\<close>, \<^verbatim>\<open>_is_spare\<close>, \<^verbatim>\<open>_strike_bonus\<close>, \<^verbatim>\<open>_spare_bonus\<close>. The reads of
  \<^verbatim>\<open>_is_strike\<close>, \<^verbatim>\<open>_is_spare\<close> and \<^verbatim>\<open>_spare_bonus\<close> are guarded by a length test
  (\<^verbatim>\<open>and\<close> and the conditional expression evaluate the guard first).
\<close>

definition is_strike :: "BowlingGame \<Rightarrow> nat \<Rightarrow> bool \<times> BowlingGame" where
  "is_strike self roll_index =
     (roll_index < length (rolls self) \<and> rolls self ! roll_index = 10, self)"

definition is_spare :: "BowlingGame \<Rightarrow> nat \<Rightarrow> bool \<times> BowlingGame" where
  "is_spare self roll_index =
     (roll_index + 1 < length (rolls self)
        \<and> rolls self ! roll_index + rolls self ! (roll_index + 1) = 10, self)"

definition strike_bonus :: "BowlingGame \<Rightarrow> nat \<Rightarrow> int \<times> BowlingGame" where
  "strike_bonus self roll_index =
     (sum_list (slice (rolls self) (roll_index + 1) (roll_index + 3)), self)"

definition spare_bonus :: "BowlingGame \<Rightarrow> nat \<Rightarrow> int \<times> BowlingGame" where
  "spare_bonus self roll_index =
     (if roll_index + 2 < length (rolls self) then rolls self ! (roll_index + 2) else 0, self)"

section \<open>\<^verbatim>\<open>score\<close>\<close>

text \<open>
  The body of \<^verbatim>\<open>for frame in range(10)\<close>, with the number of frames still to walk,
  the cursor \<^verbatim>\<open>roll_index\<close> and the running \<^verbatim>\<open>result\<close>. The open-frame branch reads
  \<^verbatim>\<open>self.rolls[roll_index]\<close> and \<^verbatim>\<open>self.rolls[roll_index + 1]\<close> unguarded.
\<close>

fun score_loop :: "BowlingGame \<Rightarrow> nat \<Rightarrow> nat \<Rightarrow> int \<Rightarrow> (error + int) \<times> BowlingGame" where
  "score_loop self 0 roll_index result = (Inr result, self)"
| "score_loop self (Suc frames) roll_index result =
     (let (strike, self1) = is_strike self roll_index in
      if strike then
        (let (bonus, self2) = strike_bonus self1 roll_index in
         score_loop self2 frames (roll_index + 1) (result + (10 + bonus)))
      else
        (let (spare, self2) = is_spare self1 roll_index in
         if spare then
           (let (bonus, self3) = spare_bonus self2 roll_index in
            score_loop self3 frames (roll_index + 2) (result + (10 + bonus)))
         else
           (case getitem (rolls self2) roll_index of
              Inl e \<Rightarrow> (Inl e, self2)
            | Inr a \<Rightarrow>
                (case getitem (rolls self2) (roll_index + 1) of
                   Inl e \<Rightarrow> (Inl e, self2)
                 | Inr b \<Rightarrow> score_loop self2 frames (roll_index + 2) (result + (a + b))))))"

definition score :: "BowlingGame \<Rightarrow> (error + int) \<times> BowlingGame" where
  "score self = score_loop self 10 0 0"

section \<open>\<^verbatim>\<open>is_finished\<close>\<close>

text \<open>
  The loop \<^verbatim>\<open>for _ in range(9)\<close> over the first nine frames: \<open>None\<close> is its early
  \<^verbatim>\<open>return False\<close>, \<open>Some i\<close> the cursor it leaves for the tenth frame.
\<close>

fun first_nine :: "int list \<Rightarrow> nat \<Rightarrow> nat \<Rightarrow> nat option" where
  "first_nine rs 0 roll_index = Some roll_index"
| "first_nine rs (Suc frames) roll_index =
     (if roll_index \<ge> length rs then None
      else if rs ! roll_index = 10 then first_nine rs frames (roll_index + 1)
      else first_nine rs frames (roll_index + 2))"

text \<open>The code after the loop: the tenth frame, \<^verbatim>\<open>second\<close> being \<^verbatim>\<open>None\<close> when absent.\<close>

definition tenth_frame :: "int list \<Rightarrow> nat \<Rightarrow> bool" where
  "tenth_frame rs roll_index =
     (if length rs \<le> roll_index then False
      else
        (let first = rs ! roll_index;
             second = (if length rs > roll_index + 1 then Some (rs ! (roll_index + 1)) else None)
         in if first = 10 then length rs \<ge> roll_index + 3
            else if (case second of None \<Rightarrow> False | Some s \<Rightarrow> first + s = 10)
              then length rs \<ge> roll_index + 3
            else (case second of None \<Rightarrow> False | Some s \<Rightarrow> True)))"

definition is_finished :: "BowlingGame \<Rightarrow> bool \<times> BowlingGame" where
  "is_finished self =
     (case first_nine (rolls self) 9 0 of
        None \<Rightarrow> (False, self)
      | Some roll_index \<Rightarrow> (tenth_frame (rolls self) roll_index, self))"

section \<open>\<^verbatim>\<open>roll\<close>\<close>

definition roll :: "BowlingGame \<Rightarrow> int \<Rightarrow> (error + unit) \<times> BowlingGame" where
  "roll self pins =
     (if pins < 0 \<or> pins > 10 then
        (Inl (ValueError ''Pins must be between 0 and 10''), self)
      else
        (let (finished, self1) = is_finished self in
         if finished then (Inl (ValueError ''Game already finished''), self1)
         else (Inr (), self1\<lparr>rolls := rolls self1 @ [pins]\<rparr>)))"

section \<open>Callers\<close>

text \<open>
  \<^verbatim>\<open>roll_many\<close> of \<^verbatim>\<open>game_testing.py\<close>: \<^verbatim>\<open>pins\<close> rolled a number of times; an exception
  ends the loop.
\<close>

fun roll_many :: "BowlingGame \<Rightarrow> nat \<Rightarrow> int \<Rightarrow> (error + unit) \<times> BowlingGame" where
  "roll_many game 0 pins = (Inr (), game)"
| "roll_many game (Suc n) pins =
     (case roll game pins of
        (Inl e, game1) \<Rightarrow> (Inl e, game1)
      | (Inr u, game1) \<Rightarrow> roll_many game1 n pins)"

text \<open>
  A caller that records a list of pin counts one after the other, stopping at the first
  exception.
\<close>

fun roll_each :: "BowlingGame \<Rightarrow> int list \<Rightarrow> (error + unit) \<times> BowlingGame" where
  "roll_each game [] = (Inr (), game)"
| "roll_each game (pins # rest) =
     (case roll game pins of
        (Inl e, game1) \<Rightarrow> (Inl e, game1)
      | (Inr u, game1) \<Rightarrow> roll_each game1 rest)"

text \<open>
  A caller that asks for the score a number of times in a row, on the object as each
  call leaves it, and collects the answers.
\<close>

fun score_repeatedly :: "BowlingGame \<Rightarrow> nat \<Rightarrow> (error + int) list \<times> BowlingGame" where
  "score_repeatedly game 0 = ([], game)"
| "score_repeatedly game (Suc n) =
     (let (v, game1) = score game;
          (vs, game2) = score_repeatedly game1 n
      in (v # vs, game2))"

section \<open>The specification's walks\<close>

text \<open>
  The definitions of this section follow the words of the specification, not the code;
  the claims compare them with \<open>score\<close> and \<open>is_finished\<close>. Every read of
  \<open>rolls[i]\<close> is a checked one: \<open>None\<close> when the position is absent.
\<close>

definition lookup :: "int list \<Rightarrow> nat \<Rightarrow> int option" where
  "lookup rs i = (if i < length rs then Some (rs ! i) else None)"

text \<open>
  The ten-frame walk of \<open>total_score\<close>: a strike adds \<open>10 + rolls[i+1] + rolls[i+2]\<close>
  and advances by 1, a spare adds \<open>10 + rolls[i+2]\<close> and advances by 2, an open frame
  adds \<open>rolls[i] + rolls[i+1]\<close> and advances by 2.
\<close>

fun spec_walk :: "int list \<Rightarrow> nat \<Rightarrow> nat \<Rightarrow> int \<Rightarrow> int option" where
  "spec_walk rs 0 i tot = Some tot"
| "spec_walk rs (Suc frames) i tot =
     (case lookup rs i of
        None \<Rightarrow> None
      | Some a \<Rightarrow>
          if a = 10 then
            (case lookup rs (i + 1) of
               None \<Rightarrow> None
             | Some b \<Rightarrow>
                 (case lookup rs (i + 2) of
                    None \<Rightarrow> None
                  | Some c \<Rightarrow> spec_walk rs frames (i + 1) (tot + (10 + b + c))))
          else
            (case lookup rs (i + 1) of
               None \<Rightarrow> None
             | Some b \<Rightarrow>
                 if a + b = 10 then
                   (case lookup rs (i + 2) of
                      None \<Rightarrow> None
                    | Some c \<Rightarrow> spec_walk rs frames (i + 2) (tot + (10 + c)))
                 else spec_walk rs frames (i + 2) (tot + (a + b))))"

definition spec_total_score :: "int list \<Rightarrow> int option" where
  "spec_total_score rs = spec_walk rs 10 0 0"

text \<open>
  The positional walk of \<open>is_complete\<close>. Frames 1 to 9: not complete when the cursor is
  at or past the end, else advance by 1 on a strike and by 2 otherwise.
\<close>

fun spec_cursor :: "int list \<Rightarrow> nat \<Rightarrow> nat \<Rightarrow> nat option" where
  "spec_cursor rs 0 i = Some i"
| "spec_cursor rs (Suc frames) i =
     (case lookup rs i of
        None \<Rightarrow> None
      | Some a \<Rightarrow> if a = 10 then spec_cursor rs frames (i + 1)
                  else spec_cursor rs frames (i + 2))"

text \<open>
  The tenth frame: not complete when the cursor is at or past the end; a strike, or a
  spare with the second roll present, is complete iff \<open>len(rolls) \<ge> i + 3\<close>; an open
  frame iff the second roll is present, \<open>len(rolls) \<ge> i + 2\<close>.
\<close>

definition spec_tenth :: "int list \<Rightarrow> nat \<Rightarrow> bool" where
  "spec_tenth rs i =
     (case lookup rs i of
        None \<Rightarrow> False
      | Some first \<Rightarrow>
          if first = 10 \<or> (case lookup rs (i + 1) of None \<Rightarrow> False | Some second \<Rightarrow> first + second = 10)
          then length rs \<ge> i + 3
          else length rs \<ge> i + 2)"

definition spec_is_complete :: "int list \<Rightarrow> bool" where
  "spec_is_complete rs =
     (case spec_cursor rs 9 0 of None \<Rightarrow> False | Some i \<Rightarrow> spec_tenth rs i)"

section \<open>Helper facts\<close>

lemma is_finished_state: "snd (is_finished self) = self"
  by (simp add: is_finished_def split: option.split)

lemma roll_invalid:
  "pins < 0 \<or> pins > 10 \<Longrightarrow> roll self pins = (Inl InvalidRollValue, self)"
  by (simp add: roll_def InvalidRollValue_def)

lemma roll_finished:
  "0 \<le> pins \<Longrightarrow> pins \<le> 10 \<Longrightarrow> fst (is_finished self) \<Longrightarrow>
   roll self pins = (Inl GameAlreadyComplete, self)"
  using is_finished_state [of self]
  by (cases "is_finished self") (simp add: roll_def GameAlreadyComplete_def)

lemma roll_ok:
  "0 \<le> pins \<Longrightarrow> pins \<le> 10 \<Longrightarrow> \<not> fst (is_finished self) \<Longrightarrow>
   roll self pins = (Inr (), self\<lparr>rolls := rolls self @ [pins]\<rparr>)"
  using is_finished_state [of self]
  by (cases "is_finished self") (simp add: roll_def)

lemma twelve_strikes_finished:
  "fst (is_finished \<lparr>rolls = [10, 10, 10, 10, 10, 10, 10, 10, 10, 10, 10, 10]\<rparr>)"
  by (simp add: is_finished_def tenth_frame_def eval_nat_numeral)

lemma score_loop_state: "snd (score_loop self n i r) = self"
  by (induction n arbitrary: i r)
     (simp_all add: is_strike_def is_spare_def strike_bonus_def spare_bonus_def getitem_def)

lemma bonus_slice:
  "sum_list (slice xs (i + 1) (i + 3)) =
     (if i + 2 < length xs then xs ! (i + 1) + xs ! (i + 2)
      else if i + 1 < length xs then xs ! (i + 1) else 0)"
proof -
  have sl: "slice xs (i + 1) (i + 3) = take 2 (drop (i + 1) xs)"
    by (simp add: slice_def)
  show ?thesis
  proof (cases "i + 2 < length xs")
    case True
    then have "take 2 (drop (i + 1) xs) = [xs ! (i + 1), xs ! (i + 2)]"
      by (simp add: take_Suc_conv_app_nth numeral_2_eq_2)
    with True sl show ?thesis by simp
  next
    case False
    show ?thesis
    proof (cases "i + 1 < length xs")
      case True
      with False have "length xs = i + 2" by simp
      then have "take 2 (drop (i + 1) xs) = [xs ! (i + 1)]"
        by (simp add: Cons_nth_drop_Suc [symmetric] numeral_2_eq_2)
      with True False sl show ?thesis by simp
    next
      case False
      then show ?thesis by (simp add: slice_def)
    qed
  qed
qed

lemma score_loop_Suc:
  "fst (score_loop self (Suc n) i r) =
     (if i < length (rolls self) \<and> rolls self ! i = 10 then
        fst (score_loop self n (i + 1)
          (r + (10 + (if i + 2 < length (rolls self)
                      then rolls self ! (i + 1) + rolls self ! (i + 2)
                      else if i + 1 < length (rolls self) then rolls self ! (i + 1) else 0))))
      else if i + 1 < length (rolls self) \<and> rolls self ! i + rolls self ! (i + 1) = 10 then
        fst (score_loop self n (i + 2)
          (r + (10 + (if i + 2 < length (rolls self) then rolls self ! (i + 2) else 0))))
      else if i + 1 < length (rolls self) then
        fst (score_loop self n (i + 2) (r + (rolls self ! i + rolls self ! (i + 1))))
      else Inl IndexError)"
  by (simp add: is_strike_def is_spare_def strike_bonus_def spare_bonus_def getitem_def
        bonus_slice del: One_nat_def)

declare score_loop.simps(2) [simp del]

lemma first_nine_le: "first_nine rs n i = Some c \<Longrightarrow> i \<le> c"
proof (induction n arbitrary: i)
  case 0
  then show ?case by simp
next
  case (Suc n)
  from Suc.prems have "first_nine rs n (i + 1) = Some c \<or> first_nine rs n (i + 2) = Some c"
    by (simp split: if_splits)
  with Suc.IH show ?case by fastforce
qed

lemma tenth_frame_two: "tenth_frame rs c \<Longrightarrow> c + 1 < length rs"
  by (simp add: tenth_frame_def Let_def split: if_splits)

lemma tenth_frame_three:
  "tenth_frame rs c \<Longrightarrow> rs ! c = 10 \<or> rs ! c + rs ! (c + 1) = 10 \<Longrightarrow> c + 2 < length rs"
  by (auto simp add: tenth_frame_def Let_def split: if_splits)

lemma walk_agree:
  "first_nine (rolls self) n i = Some c \<Longrightarrow> tenth_frame (rolls self) c \<Longrightarrow>
   \<exists>v. fst (score_loop self (Suc n) i r) = Inr v \<and> spec_walk (rolls self) (Suc n) i r = Some v"
proof (induction n arbitrary: i r)
  case 0
  then have c: "c = i" by simp
  from 0 c have two: "i + 1 < length (rolls self)" using tenth_frame_two by blast
  show ?case
  proof (cases "rolls self ! i = 10 \<or> rolls self ! i + rolls self ! (i + 1) = 10")
    case True
    with 0 c have three: "i + 2 < length (rolls self)" using tenth_frame_three by blast
    show ?thesis using True two three
      by (auto simp add: score_loop_Suc [of self 0] lookup_def)
  next
    case False
    then show ?thesis using two
      by (auto simp add: score_loop_Suc [of self 0] lookup_def)
  qed
next
  case (Suc n)
  from Suc.prems(1) have here: "i < length (rolls self)" by (simp split: if_splits)
  show ?case
  proof (cases "rolls self ! i = 10")
    case True
    with Suc.prems(1) here have nxt: "first_nine (rolls self) n (i + 1) = Some c" by simp
    from first_nine_le [OF nxt] tenth_frame_two [OF Suc.prems(2)]
    have three: "i + 2 < length (rolls self)" by simp
    from Suc.IH [OF nxt Suc.prems(2), of "r + (10 + rolls self ! (i + 1) + rolls self ! (i + 2))"]
    obtain v where v: "fst (score_loop self (Suc n) (i + 1)
          (r + (10 + rolls self ! (i + 1) + rolls self ! (i + 2)))) = Inr v"
       "spec_walk (rolls self) (Suc n) (i + 1)
          (r + (10 + rolls self ! (i + 1) + rolls self ! (i + 2))) = Some v" by blast
    have "fst (score_loop self (Suc (Suc n)) i r) = Inr v"
      using True here three v(1) by (simp add: score_loop_Suc [of self "Suc n" i] add.assoc)
    moreover have "spec_walk (rolls self) (Suc (Suc n)) i r = Some v"
      using True here three v(2) by (simp add: lookup_def)
    ultimately show ?thesis by blast
  next
    case False
    with Suc.prems(1) here have nxt: "first_nine (rolls self) n (i + 2) = Some c" by simp
    from first_nine_le [OF nxt] tenth_frame_two [OF Suc.prems(2)]
    have three: "i + 2 < length (rolls self)" by simp
    show ?thesis
    proof (cases "rolls self ! i + rolls self ! (i + 1) = 10")
      case True
      from Suc.IH [OF nxt Suc.prems(2), of "r + (10 + rolls self ! (i + 2))"]
      obtain v where v: "fst (score_loop self (Suc n) (i + 2) (r + (10 + rolls self ! (i + 2)))) = Inr v"
         "spec_walk (rolls self) (Suc n) (i + 2) (r + (10 + rolls self ! (i + 2))) = Some v" by blast
      have "fst (score_loop self (Suc (Suc n)) i r) = Inr v"
        using True False three v(1) by (simp add: score_loop_Suc [of self "Suc n" i])
      moreover have "spec_walk (rolls self) (Suc (Suc n)) i r = Some v"
        using True False three v(2) by (simp add: lookup_def)
      ultimately show ?thesis by blast
    next
      case open_frame: False
      from Suc.IH [OF nxt Suc.prems(2), of "r + (rolls self ! i + rolls self ! (i + 1))"]
      obtain v where v: "fst (score_loop self (Suc n) (i + 2) (r + (rolls self ! i + rolls self ! (i + 1)))) = Inr v"
         "spec_walk (rolls self) (Suc n) (i + 2) (r + (rolls self ! i + rolls self ! (i + 1))) = Some v" by blast
      have "fst (score_loop self (Suc (Suc n)) i r) = Inr v"
        using open_frame False three v(1) by (simp add: score_loop_Suc [of self "Suc n" i])
      moreover have "spec_walk (rolls self) (Suc (Suc n)) i r = Some v"
        using open_frame False three v(2) by (simp add: lookup_def)
      ultimately show ?thesis by blast
    qed
  qed
qed

lemma score_state: "snd (score self) = self"
  by (simp add: score_def score_loop_state)

lemma score_loop_pad:
  "fst (score_loop self n i r) = Inr v \<Longrightarrow>
   fst (score_loop (self\<lparr>rolls := rolls self @ [0, 0]\<rparr>) n i r) = Inr v"
proof (induction n arbitrary: i r)
  case 0
  then show ?case by simp
next
  case (Suc n)
  show ?case
    using Suc.prems Suc.IH
    by (auto simp add: score_loop_Suc [of _ n i] nth_append split: if_splits)
qed

lemma first_nine_None:
  "first_nine (rolls self) n i = None \<Longrightarrow> fst (score_loop self (Suc n) i r) = Inl IndexError"
proof (induction n arbitrary: i r)
  case 0
  then show ?case by simp
next
  case (Suc n)
  show ?case
    using Suc.prems Suc.IH
    by (simp add: score_loop_Suc [of self "Suc n" i] split: if_splits)
qed

lemma first_nine_stuck:
  "first_nine (rolls self) n i = Some c \<Longrightarrow> \<not> tenth_frame (rolls self) c \<Longrightarrow>
   \<not> (fst (is_strike self c) \<or> fst (is_spare self c)) \<Longrightarrow>
   fst (score_loop self (Suc n) i r) = Inl IndexError"
proof (induction n arbitrary: i r)
  case 0
  then show ?case
    by (auto simp add: score_loop_Suc tenth_frame_def is_strike_def is_spare_def
          split: if_splits)
next
  case (Suc n)
  show ?case
    using Suc.prems Suc.IH
    by (simp add: score_loop_Suc [of self "Suc n" i] split: if_splits)
qed

lemma first_nine_pending:
  "first_nine (rolls self) n i = Some c \<Longrightarrow>
   fst (is_strike self c) \<or> fst (is_spare self c) \<Longrightarrow>
   \<exists>v. fst (score_loop self (Suc n) i r) = Inr v"
proof (induction n arbitrary: i r)
  case 0
  then show ?case
    by (auto simp add: score_loop_Suc is_strike_def is_spare_def)
next
  case (Suc n)
  from Suc.prems(2) have c: "c < length (rolls self)"
    by (auto simp add: is_strike_def is_spare_def)
  from Suc.prems(1) have here: "i < length (rolls self)" by (simp split: if_splits)
  show ?case
  proof (cases "rolls self ! i = 10")
    case True
    with Suc.prems(1) here have nxt: "first_nine (rolls self) n (i + 1) = Some c" by simp
    from Suc.IH [OF nxt Suc.prems(2)] True here show ?thesis
      by (simp add: score_loop_Suc [of self "Suc n" i])
  next
    case False
    with Suc.prems(1) here have nxt: "first_nine (rolls self) n (i + 2) = Some c" by simp
    from first_nine_le [OF nxt] c have two: "i + 1 < length (rolls self)" by simp
    from Suc.IH [OF nxt Suc.prems(2)] False two show ?thesis
      by (simp add: score_loop_Suc [of self "Suc n" i])
  qed
qed

lemma first_nine_append:
  "first_nine rs n i = Some c \<Longrightarrow> first_nine (rs @ zs) n i = Some c"
proof (induction n arbitrary: i)
  case 0
  then show ?case by simp
next
  case (Suc n)
  then show ?case by (simp add: nth_append split: if_splits)
qed

lemma pending_pad_finished:
  assumes "first_nine (rolls self) 9 0 = Some c"
    and "fst (is_strike self c) \<or> fst (is_spare self c)"
  shows "fst (is_finished (self\<lparr>rolls := rolls self @ [0, 0]\<rparr>))"
proof -
  from assms(2) have c: "c < length (rolls self)"
    by (auto simp add: is_strike_def is_spare_def)
  have "tenth_frame (rolls self @ [0, 0]) c"
    using assms(2) c by (auto simp add: tenth_frame_def is_strike_def is_spare_def nth_append)
  with first_nine_append [OF assms(1), of "[0, 0]"] show ?thesis
    by (simp add: is_finished_def)
qed

lemma spec_cursor_eq: "spec_cursor rs n i = first_nine rs n i"
  by (induction n arbitrary: i) (simp_all add: lookup_def)

lemma spec_tenth_eq: "spec_tenth rs i = tenth_frame rs i"
  by (auto simp add: spec_tenth_def tenth_frame_def lookup_def Let_def)

lemma roll_Inr:
  "roll self pins = (Inr u, game) \<Longrightarrow>
   0 \<le> pins \<and> pins \<le> 10 \<and> \<not> fst (is_finished self)
   \<and> game = self\<lparr>rolls := rolls self @ [pins]\<rparr>"
  using is_finished_state [of self]
  by (cases "is_finished self") (auto simp add: roll_def split: if_splits)

lemma roll_each_Inr:
  "roll_each game ps = (Inr u, game') \<Longrightarrow>
   rolls game' = rolls game @ ps
   \<and> (\<forall>k < length ps. \<not> fst (is_finished \<lparr>rolls = rolls game @ take k ps\<rparr>))
   \<and> (\<forall>x \<in> set ps. 0 \<le> x \<and> x \<le> 10)"
proof (induction ps arbitrary: game)
  case Nil
  then show ?case by simp
next
  case (Cons p ps)
  from Cons.prems obtain g1 where r: "roll game p = (Inr (), g1)" and rest: "roll_each g1 ps = (Inr u, game')"
    by (auto split: prod.splits sum.splits)
  from roll_Inr [OF r] have p: "0 \<le> p" "p \<le> 10" "\<not> fst (is_finished game)"
    and g1: "rolls g1 = rolls game @ [p]" by simp_all
  from Cons.IH [OF rest] g1 have ih: "rolls game' = rolls game @ p # ps"
    "\<forall>k < length ps. \<not> fst (is_finished \<lparr>rolls = rolls game @ p # take k ps\<rparr>)"
    "\<forall>x \<in> set ps. 0 \<le> x \<and> x \<le> 10" by simp_all
  have "\<not> fst (is_finished \<lparr>rolls = rolls game @ take k (p # ps)\<rparr>)" if "k < length (p # ps)" for k
  proof (cases k)
    case 0
    with p(3) show ?thesis by (cases game) simp
  next
    case (Suc j)
    with that ih(2) show ?thesis by simp
  qed
  with ih(1,3) p(1,2) show ?case by simp
qed

lemma score_repeatedly_eq: "score_repeatedly game n = (replicate n (fst (score game)), game)"
proof (induction n)
  case 0
  then show ?case by simp
next
  case (Suc n)
  obtain v where v: "score game = (v, game)"
    using score_state [of game] by (cases "score game") simp
  with Suc show ?case by simp
qed

section \<open>Claims\<close>

text \<open>
  C1, as stated: on every roll sequence on which \<^verbatim>\<open>is_finished\<close> is false, \<^verbatim>\<open>score\<close>
  fails and never returns an integer. The code has no such guard. Ten strikes are an
  unfinished game (the two bonus rolls of the tenth frame are missing), and \<^verbatim>\<open>score\<close>
  returns 270 on it.
\<close>

theorem C1_score_unfinished_counterexample:
  "\<not> fst (is_finished \<lparr>rolls = [10, 10, 10, 10, 10, 10, 10, 10, 10, 10]\<rparr>)
   \<and> fst (score \<lparr>rolls = [10, 10, 10, 10, 10, 10, 10, 10, 10, 10]\<rparr>) = Inr 270"
  by code_simp

text \<open>
  C1, amended: on every roll sequence on which \<^verbatim>\<open>is_finished\<close> is false, \<^verbatim>\<open>score\<close>
  raises \<^verbatim>\<open>IndexError\<close> (its open-frame branch reads at or past the end of the rolls),
  unless the walk over the first nine frames reaches a tenth frame that is a strike or a
  spare. In that case, and only then, it returns an integer: the score of the same
  rolls with two rolls of 0 appended, which are a finished game; so the bonus rolls
  that are missing count as 0.
\<close>

theorem C1_score_unfinished:
  assumes "\<not> fst (is_finished self)"
  shows "fst (score self) =
           (case first_nine (rolls self) 9 0 of
              None \<Rightarrow> Inl IndexError
            | Some c \<Rightarrow>
                if fst (is_strike self c) \<or> fst (is_spare self c)
                then fst (score (self\<lparr>rolls := rolls self @ [0, 0]\<rparr>))
                else Inl IndexError)
         \<and> (\<exists>v. fst (score self) = Inr v) =
           (case first_nine (rolls self) 9 0 of
              None \<Rightarrow> False
            | Some c \<Rightarrow>
                (fst (is_strike self c) \<or> fst (is_spare self c))
                \<and> fst (is_finished (self\<lparr>rolls := rolls self @ [0, 0]\<rparr>)))"
proof (cases "first_nine (rolls self) 9 0")
  case None
  from first_nine_None [OF None, of 0] have "fst (score self) = Inl IndexError"
    by (simp add: score_def eval_nat_numeral)
  with None show ?thesis by simp
next
  case (Some c)
  with assms have nt: "\<not> tenth_frame (rolls self) c" by (simp add: is_finished_def)
  show ?thesis
  proof (cases "fst (is_strike self c) \<or> fst (is_spare self c)")
    case True
    from first_nine_pending [OF Some True, of 0]
    obtain v where v: "fst (score self) = Inr v" by (auto simp add: score_def eval_nat_numeral)
    then have "fst (score (self\<lparr>rolls := rolls self @ [0, 0]\<rparr>)) = Inr v"
      unfolding score_def by (rule score_loop_pad)
    with v Some True pending_pad_finished [OF Some True] show ?thesis by simp
  next
    case False
    from first_nine_stuck [OF Some nt False, of 0] have "fst (score self) = Inl IndexError"
      by (simp add: score_def eval_nat_numeral)
    with Some False show ?thesis by simp
  qed
qed

text \<open>The amended C1 at the empty game: no frame has a roll, \<^verbatim>\<open>score\<close> raises.\<close>

theorem C1_score_unfinished_witness:
  "\<not> fst (is_finished \<lparr>rolls = []\<rparr>)
   \<and> fst (score \<lparr>rolls = []\<rparr>) = Inl IndexError
   \<and> \<not> (\<exists>v. fst (score \<lparr>rolls = []\<rparr>) = Inr v)"
proof -
  have h: "\<not> fst (is_finished \<lparr>rolls = []\<rparr>)"
    by (simp add: is_finished_def eval_nat_numeral)
  have n: "first_nine [] 9 0 = None"
    by (simp add: eval_nat_numeral)
  show ?thesis using h C1_score_unfinished [OF h] by (simp add: n)
qed

text \<open>
  C2. On every roll sequence on which \<^verbatim>\<open>is_finished\<close> is true, \<^verbatim>\<open>score\<close> returns an
  integer, and it is the result of the specification's ten-frame walk from cursor 0,
  all of whose reads are in range.
\<close>

theorem C2_score_is_spec_walk:
  assumes "fst (is_finished self)"
  shows "\<exists>v. fst (score self) = Inr v \<and> spec_total_score (rolls self) = Some v"
proof -
  from assms obtain c where c: "first_nine (rolls self) 9 0 = Some c" "tenth_frame (rolls self) c"
    by (auto simp add: is_finished_def split: option.splits)
  from walk_agree [OF c, of 0] show ?thesis
    by (simp add: score_def spec_total_score_def eval_nat_numeral)
qed

theorem C2_score_is_spec_walk_witness:
  "fst (is_finished \<lparr>rolls = [10, 10, 10, 10, 10, 10, 10, 10, 10, 10, 10, 10]\<rparr>)
   \<and> (\<exists>v. fst (score \<lparr>rolls = [10, 10, 10, 10, 10, 10, 10, 10, 10, 10, 10, 10]\<rparr>) = Inr v
          \<and> spec_total_score (rolls \<lparr>rolls = [10, 10, 10, 10, 10, 10, 10, 10, 10, 10, 10, 10]\<rparr>) = Some v)"
proof -
  have fin: "fst (is_finished \<lparr>rolls = [10, 10, 10, 10, 10, 10, 10, 10, 10, 10, 10, 10]\<rparr>)"
    by (rule twelve_strikes_finished)
  show ?thesis using fin C2_score_is_spec_walk [OF fin] by (rule conjI)
qed

text \<open>
  C3. On every roll sequence, \<^verbatim>\<open>is_finished\<close> returns what the specification's
  positional walk returns: the cursor goes through frames 1 to 9, by 1 on a strike and
  by 2 otherwise, the answer being false when it reaches the end of the rolls; in the
  tenth frame a strike, or a spare with its second roll present, is complete iff the
  rolls reach position \<open>i + 2\<close>, and an open frame iff the second roll is present.
\<close>

theorem C3_is_finished_is_spec_walk:
  "fst (is_finished self) = spec_is_complete (rolls self)"
  by (simp add: is_finished_def spec_is_complete_def spec_cursor_eq spec_tenth_eq
        split: option.split)

text \<open>
  C4. In \<^verbatim>\<open>roll\<close> the range check comes before the completion check: on a finished
  game, a pin count outside 0..10 fails with the invalid-value error, not with the
  already-finished one.
\<close>

theorem C4_range_check_first:
  assumes "fst (is_finished self)" and "pins < 0 \<or> pins > 10"
  shows "fst (roll self pins) = Inl InvalidRollValue
         \<and> fst (roll self pins) \<noteq> Inl GameAlreadyComplete"
  using assms(2) by (simp add: roll_invalid InvalidRollValue_def GameAlreadyComplete_def)

theorem C4_range_check_first_witness:
  "fst (is_finished \<lparr>rolls = [10, 10, 10, 10, 10, 10, 10, 10, 10, 10, 10, 10]\<rparr>)
   \<and> ((11::int) < 0 \<or> (11::int) > 10)
   \<and> fst (roll \<lparr>rolls = [10, 10, 10, 10, 10, 10, 10, 10, 10, 10, 10, 10]\<rparr> 11) = Inl InvalidRollValue
   \<and> fst (roll \<lparr>rolls = [10, 10, 10, 10, 10, 10, 10, 10, 10, 10, 10, 10]\<rparr> 11) \<noteq> Inl GameAlreadyComplete"
proof -
  have fin: "fst (is_finished \<lparr>rolls = [10, 10, 10, 10, 10, 10, 10, 10, 10, 10, 10, 10]\<rparr>)"
    by (rule twelve_strikes_finished)
  have out: "(11::int) < 0 \<or> (11::int) > 10" by simp
  show ?thesis using fin out C4_range_check_first [OF fin out] by blast
qed

text \<open>
  C5. From a new game, twelve rolls of 10 are all accepted, and \<^verbatim>\<open>score\<close> then
  returns 300.
\<close>

theorem C5_perfect_game:
  "fst (roll_many BowlingGame_init 12 10) = Inr ()
   \<and> fst (score (snd (roll_many BowlingGame_init 12 10))) = Inr 300"
  by code_simp

text \<open>
  C6. Whenever \<^verbatim>\<open>roll\<close> fails, its error is the invalid-value or the already-finished
  one, and the rolls are as they were before the call.
\<close>

theorem C6_roll_failure_atomic:
  assumes "fst (roll self pins) = Inl e"
  shows "rolls (snd (roll self pins)) = rolls self
         \<and> (e = InvalidRollValue \<or> e = GameAlreadyComplete)"
proof (cases "pins < 0 \<or> pins > 10")
  case True
  from roll_invalid [OF True, of self] assms show ?thesis by simp
next
  case False
  then have range: "0 \<le> pins" "pins \<le> 10" by simp_all
  show ?thesis
  proof (cases "fst (is_finished self)")
    case True
    from roll_finished [OF range True] assms show ?thesis by simp
  next
    case False
    from roll_ok [OF range False] assms show ?thesis by simp
  qed
qed

theorem C6_roll_failure_atomic_witness:
  "fst (roll \<lparr>rolls = [3, 4]\<rparr> (- 1)) = Inl InvalidRollValue
   \<and> rolls (snd (roll \<lparr>rolls = [3, 4]\<rparr> (- 1))) = rolls \<lparr>rolls = [3, 4]\<rparr>
   \<and> (InvalidRollValue = InvalidRollValue \<or> InvalidRollValue = GameAlreadyComplete)"
proof -
  have f: "fst (roll \<lparr>rolls = [3, 4]\<rparr> (- 1)) = Inl InvalidRollValue"
    by (simp add: roll_def InvalidRollValue_def)
  show ?thesis using f C6_roll_failure_atomic [OF f] by (rule conjI)
qed

text \<open>
  C7. Invariant I1: from the empty game, after any sequence of successful calls of
  \<^verbatim>\<open>roll\<close>, every element of the rolls is within 0..10.
\<close>

theorem C7_rolls_in_range:
  assumes "roll_each BowlingGame_init ps = (Inr (), game)"
  shows "\<forall>x \<in> set (rolls game). 0 \<le> x \<and> x \<le> 10"
  using roll_each_Inr [OF assms] by (simp add: BowlingGame_init_def)

theorem C7_rolls_in_range_witness:
  "roll_each BowlingGame_init [3, 10, 0] = (Inr (), \<lparr>rolls = [3, 10, 0]\<rparr>)
   \<and> list_all (\<lambda>x. 0 \<le> x \<and> x \<le> 10) (rolls \<lparr>rolls = [3, 10, 0]\<rparr>)"
proof -
  have r: "roll_each BowlingGame_init [3, 10, 0] = (Inr (), \<lparr>rolls = [3, 10, 0]\<rparr>)"
    by code_simp
  from C7_rolls_in_range [OF r]
  have "list_all (\<lambda>x. 0 \<le> x \<and> x \<le> 10) (rolls \<lparr>rolls = [3, 10, 0]\<rparr>)"
    unfolding list_all_iff .
  with r show ?thesis by (rule conjI)
qed

text \<open>
  C8. When a sequence of rolls, recorded one by one from the empty game by successful
  calls of \<^verbatim>\<open>roll\<close>, ends in a finished game, \<^verbatim>\<open>is_finished\<close> is false on every proper
  prefix of it: the game becomes finished at the last recorded roll, not before.
\<close>

theorem C8_unfinished_before_last_roll:
  assumes "roll_each BowlingGame_init ps = (Inr (), game)"
    and "fst (is_finished game)"
    and "strict_prefix qs (rolls game)"
  shows "\<not> fst (is_finished \<lparr>rolls = qs\<rparr>)"
proof -
  from roll_each_Inr [OF assms(1)] have ps: "rolls game = ps"
    and pre: "\<forall>k < length ps. \<not> fst (is_finished \<lparr>rolls = take k ps\<rparr>)"
    by (simp_all add: BowlingGame_init_def)
  from assms(3) ps obtain zs where zs: "ps = qs @ zs" "zs \<noteq> []"
    by (auto simp add: strict_prefix_def prefix_def)
  then have "length qs < length ps" "take (length qs) ps = qs" by simp_all
  with pre show ?thesis by metis
qed

theorem C8_unfinished_before_last_roll_witness:
  "roll_each BowlingGame_init [10, 10, 10, 10, 10, 10, 10, 10, 10, 3, 4]
     = (Inr (), \<lparr>rolls = [10, 10, 10, 10, 10, 10, 10, 10, 10, 3, 4]\<rparr>)
   \<and> fst (is_finished \<lparr>rolls = [10, 10, 10, 10, 10, 10, 10, 10, 10, 3, 4]\<rparr>)
   \<and> strict_prefix [10, 10, 10, 10, 10, 10, 10, 10, 10, 3]
        (rolls \<lparr>rolls = [10, 10, 10, 10, 10, 10, 10, 10, 10, 3, 4]\<rparr>)
   \<and> \<not> fst (is_finished \<lparr>rolls = [10, 10, 10, 10, 10, 10, 10, 10, 10, 3]\<rparr>)"
proof -
  have r: "roll_each BowlingGame_init [10, 10, 10, 10, 10, 10, 10, 10, 10, 3, 4]
     = (Inr (), \<lparr>rolls = [10, 10, 10, 10, 10, 10, 10, 10, 10, 3, 4]\<rparr>)"
    by code_simp
  have f: "fst (is_finished \<lparr>rolls = [10, 10, 10, 10, 10, 10, 10, 10, 10, 3, 4]\<rparr>)"
    by code_simp
  have p: "strict_prefix [10, 10, 10, 10, 10, 10, 10, 10, 10, 3]
        (rolls \<lparr>rolls = [10, 10, 10, 10, 10, 10, 10, 10, 10, 3, 4 :: int]\<rparr>)"
    by (simp add: strict_prefix_def)
  show ?thesis using r f p C8_unfinished_before_last_roll [OF r f p] by blast
qed

text \<open>
  C9. \<^verbatim>\<open>score\<close> and \<^verbatim>\<open>is_finished\<close> leave the object, and so its rolls, as they found
  it; hence \<^verbatim>\<open>score\<close> called any number of times in a row on the same object, finished
  or not, gives the same answer every time.
\<close>

theorem C9_score_and_is_finished_read_only:
  "snd (score self) = self
   \<and> snd (is_finished self) = self
   \<and> score_repeatedly self n = (replicate n (fst (score self)), self)"
  by (simp add: score_state is_finished_state score_repeatedly_eq)

text \<open>
  C10. \<^verbatim>\<open>roll\<close> succeeds exactly when the pin count is within 0..10 and the game is not
  finished, and then appends the pin count; otherwise the object is unchanged. There is
  no check of a frame's pin sum: from the empty game, 9 followed by 9 is accepted.
\<close>

theorem C10_roll_succeeds_iff:
  "(fst (roll self pins) = Inr ()) = (0 \<le> pins \<and> pins \<le> 10 \<and> \<not> fst (is_finished self))
   \<and> snd (roll self pins) =
       (if 0 \<le> pins \<and> pins \<le> 10 \<and> \<not> fst (is_finished self)
        then self\<lparr>rolls := rolls self @ [pins]\<rparr> else self)
   \<and> roll_each BowlingGame_init [9, 9] = (Inr (), \<lparr>rolls = [9, 9]\<rparr>)"
proof -
  have e: "roll_each BowlingGame_init [9, 9] = (Inr (), \<lparr>rolls = [9, 9]\<rparr>)"
    by code_simp
  show ?thesis
  proof (cases "0 \<le> pins \<and> pins \<le> 10")
    case True
    then show ?thesis using e roll_ok [of pins self] roll_finished [of pins self]
      by (cases "fst (is_finished self)") (simp_all add: GameAlreadyComplete_def)
  next
    case False
    then have "pins < 0 \<or> pins > 10" by auto
    from roll_invalid [OF this, of self] False e show ?thesis by auto
  qed
qed

end
